theory Spec2Isabelle
  imports Complex_Main "HOL-Library.Log_Nat" "HOL-Library.Multiset"
begin

section \<open>The Universal Equaddle Law module: register layout, circuit composition, footprint check\<close>

text \<open>
  The source is one Python script. Its first part (lines 12 to 112) builds a circuit on a
  \<open>QuantumCircuit\<close> object \<open>qc\<close> by a fixed series of library calls; its last part
  (lines 133 to 151) is the function \<open>check_accountability_footprint\<close>, which classifies
  a table of measurement counts. The measurement and simulation in between (lines 118 to
  125, from \<open>measure_all\<close> on) belong to an external backend and are not modelled, and
  neither is the text that the script prints.
\<close>

subsection \<open>Errors\<close>

text \<open>
  The script defines no exception class of its own. What can be raised is raised by the
  Python runtime (\<open>max\<close> of an empty sequence, division by zero, a quotient too large for a
  float, a call with a keyword argument that the callee does not have) or by the circuit
  library (\<open>CircuitError\<close>, with the reason kept as a value).
\<close>

datatype circuit_error_reason =
    NegativeSize int
  | IndexOutOfRange int int
  | DuplicateQubits
  | EmptyArguments

datatype py_error =
    ValueError
  | ZeroDivisionError
  | OverflowError
  | TypeError
  | CircuitError circuit_error_reason

subsection \<open>Global configuration (lines 12 to 29)\<close>

text \<open>
  The four register widths are module constants of the script, each equal to 2. They are the
  fields of a record here, so that the offsets and the circuit are functions of them;
  \<open>reference_widths\<close> is the sizing written in the source.
\<close>

record widths =
  PHASE_QUBITS :: int
  EXISTENCE_QUBITS :: int
  RESOURCE_QUBITS :: int
  TPP_VALUE_QUBITS :: int

definition reference_widths :: widths where
  "reference_widths =
     \<lparr>PHASE_QUBITS = 2, EXISTENCE_QUBITS = 2, RESOURCE_QUBITS = 2, TPP_VALUE_QUBITS = 2\<rparr>"

definition TOTAL_QUBITS :: "widths \<Rightarrow> int" where
  "TOTAL_QUBITS w =
     PHASE_QUBITS w + EXISTENCE_QUBITS w + RESOURCE_QUBITS w + TPP_VALUE_QUBITS w"

definition P_START :: int where
  "P_START = 0"

definition E_START :: "widths \<Rightarrow> int" where
  "E_START w = P_START + PHASE_QUBITS w"

definition R_START :: "widths \<Rightarrow> int" where
  "R_START w = E_START w + EXISTENCE_QUBITS w"

definition V_START :: "widths \<Rightarrow> int" where
  "V_START w = R_START w + RESOURCE_QUBITS w"

text \<open>
  The angles are floats in the source. They are only passed through to the gate records, and
  none of the properties below depends on their numeric value, so each is represented by the
  real number its defining expression denotes.
\<close>

definition PHI :: real where
  "PHI = (1 + sqrt 5) / 2"

definition MASS_CONSTANT :: real where
  "MASS_CONSTANT = 3.14159 * 1000"

definition PNEUMATIC_DENSITY :: real where
  "PNEUMATIC_DENSITY = 0.0001 * pi"

text \<open>
  The four register groups as sets of bit indices: a group starts at its offset and has its
  width; the Phase group is the \<open>range(P_START, E_START)\<close> of line 41.
\<close>

datatype register_group = Phase | Existence | Resource | Value_group

fun group_start :: "widths \<Rightarrow> register_group \<Rightarrow> int" where
  "group_start w Phase = P_START"
| "group_start w Existence = E_START w"
| "group_start w Resource = R_START w"
| "group_start w Value_group = V_START w"

fun group_width :: "widths \<Rightarrow> register_group \<Rightarrow> int" where
  "group_width w Phase = PHASE_QUBITS w"
| "group_width w Existence = EXISTENCE_QUBITS w"
| "group_width w Resource = RESOURCE_QUBITS w"
| "group_width w Value_group = TPP_VALUE_QUBITS w"

definition group_bits :: "widths \<Rightarrow> register_group \<Rightarrow> int set" where
  "group_bits w g = {group_start w g ..< group_start w g + group_width w g}"

definition nonneg_widths :: "widths \<Rightarrow> bool" where
  "nonneg_widths w \<longleftrightarrow>
     0 \<le> PHASE_QUBITS w \<and> 0 \<le> EXISTENCE_QUBITS w \<and> 0 \<le> RESOURCE_QUBITS w \<and> 0 \<le> TPP_VALUE_QUBITS w"

subsection \<open>The circuit object\<close>

text \<open>
  \<open>QuantumCircuit\<close> is a class of an external library. It is modelled as a recorder: a gate
  call appends one instruction per addressed qubit tuple to \<open>data\<close>, after the library's
  argument checks. A qubit is given by an integer that indexes the circuit's list of qubits
  the way Python indexes a list (a negative index counts from the end); an index outside the
  list, a repeated qubit in one gate, an empty qubit argument and a negative circuit size
  raise \<open>CircuitError\<close>. A barrier without qubit arguments spans the whole register, so
  it carries its label only. The gate methods \<open>p\<close>, \<open>crz\<close>, \<open>rx\<close> and \<open>rz\<close> are taken with
  the \<open>label\<close> keyword that the script passes to them, and the label is recorded with
  the instruction.
\<close>

datatype gate =
    HGate
  | CXGate
  | PhaseGate real
  | CRZGate real
  | XGate
  | RXGate real
  | RZGate real
  | CSwapGate

datatype instruction =
    Gate gate "int list" "string option"
  | Barrier "string option"

record circuit =
  num_qubits :: int
  name :: string
  data :: "instruction list"

definition QuantumCircuit :: "int \<Rightarrow> string \<Rightarrow> py_error + circuit" where
  "QuantumCircuit n nm =
     (if n < 0 then Inl (CircuitError (NegativeSize n))
      else Inr \<lparr>num_qubits = n, name = nm, data = []\<rparr>)"

definition qubit_index :: "circuit \<Rightarrow> int \<Rightarrow> py_error + int" where
  "qubit_index qc i =
     (if 0 \<le> i \<and> i < num_qubits qc then Inr i
      else if - num_qubits qc \<le> i \<and> i < 0 then Inr (i + num_qubits qc)
      else Inl (CircuitError (IndexOutOfRange i (num_qubits qc))))"

fun qubit_indices :: "circuit \<Rightarrow> int list \<Rightarrow> py_error + int list" where
  "qubit_indices qc [] = Inr []"
| "qubit_indices qc (i # is) =
     (case qubit_index qc i of
        Inl e \<Rightarrow> Inl e
      | Inr q \<Rightarrow> (case qubit_indices qc is of Inl e \<Rightarrow> Inl e | Inr qs \<Rightarrow> Inr (q # qs)))"

definition append_gate :: "gate \<Rightarrow> int list \<Rightarrow> string option \<Rightarrow> circuit \<Rightarrow> py_error + circuit" where
  "append_gate g is lbl qc =
     (case qubit_indices qc is of
        Inl e \<Rightarrow> Inl e
      | Inr qs \<Rightarrow>
          if distinct qs then Inr (qc\<lparr>data := data qc @ [Gate g qs lbl]\<rparr>)
          else Inl (CircuitError DuplicateQubits))"

text \<open>\<open>range(a, b)\<close> of Python: the integers from \<open>a\<close> up to \<open>b - 1\<close>, none when \<open>b \<le> a\<close>.\<close>

definition py_range :: "int \<Rightarrow> int \<Rightarrow> int list" where
  "py_range a b = [a..b - 1]"

text \<open>\<open>qc.h\<close> on a sequence of qubits: one \<open>h\<close> gate per qubit, in order.\<close>

definition h_gate :: "int list \<Rightarrow> circuit \<Rightarrow> py_error + circuit" where
  "h_gate is qc =
     (case qubit_indices qc is of
        Inl e \<Rightarrow> Inl e
      | Inr qs \<Rightarrow>
          if qs = [] then Inl (CircuitError EmptyArguments)
          else Inr (qc\<lparr>data := data qc @ map (\<lambda>q. Gate HGate [q] None) qs\<rparr>))"

definition cx :: "int \<Rightarrow> int \<Rightarrow> circuit \<Rightarrow> py_error + circuit" where
  "cx c t = append_gate CXGate [c, t] None"

definition p_gate :: "real \<Rightarrow> int \<Rightarrow> string \<Rightarrow> circuit \<Rightarrow> py_error + circuit" where
  "p_gate theta q lbl = append_gate (PhaseGate theta) [q] (Some lbl)"

definition crz :: "real \<Rightarrow> int \<Rightarrow> int \<Rightarrow> string \<Rightarrow> circuit \<Rightarrow> py_error + circuit" where
  "crz theta c t lbl = append_gate (CRZGate theta) [c, t] (Some lbl)"

definition x_gate :: "int \<Rightarrow> circuit \<Rightarrow> py_error + circuit" where
  "x_gate q = append_gate XGate [q] None"

definition rx :: "real \<Rightarrow> int \<Rightarrow> string \<Rightarrow> circuit \<Rightarrow> py_error + circuit" where
  "rx theta q lbl = append_gate (RXGate theta) [q] (Some lbl)"

definition rz :: "real \<Rightarrow> int \<Rightarrow> string \<Rightarrow> circuit \<Rightarrow> py_error + circuit" where
  "rz phi q lbl = append_gate (RZGate phi) [q] (Some lbl)"

text \<open>
  \<open>qc.append(instruction, qargs, label=...)\<close>, the call of line 107. The parameters of
  \<open>QuantumCircuit.append\<close> are \<open>instruction\<close>, \<open>qargs\<close>, \<open>cargs\<close> and \<open>copy\<close>; it has no
  \<open>label\<close>. Python binds the arguments before it runs the body, so the call raises
  \<open>TypeError\<close> whatever the instruction, the qubits and the circuit are, and the circuit
  stays as it was.
\<close>

definition append_labelled :: "gate \<Rightarrow> int list \<Rightarrow> string \<Rightarrow> circuit \<Rightarrow> py_error + circuit" where
  "append_labelled g is lbl qc = Inl TypeError"

definition barrier :: "string option \<Rightarrow> circuit \<Rightarrow> py_error + circuit" where
  "barrier lbl qc = Inr (qc\<lparr>data := data qc @ [Barrier lbl]\<rparr>)"

text \<open>
  A block of statements runs in order on the circuit and stops at the first exception.
\<close>

fun run :: "(circuit \<Rightarrow> py_error + circuit) list \<Rightarrow> circuit \<Rightarrow> py_error + circuit" where
  "run [] qc = Inr qc"
| "run (stmt # stmts) qc = (case stmt qc of Inl e \<Rightarrow> Inl e | Inr qc' \<Rightarrow> run stmts qc')"

text \<open>The decimal text of an integer, as an f-string prints it.\<close>

fun digits :: "nat \<Rightarrow> string" where
  "digits n =
     (if n < 10 then [''0123456789'' ! n]
      else digits (n div 10) @ [''0123456789'' ! (n mod 10)])"

definition py_str :: "int \<Rightarrow> string" where
  "py_str i = (if i < 0 then CHR ''-'' # digits (nat (- i)) else digits (nat i))"

subsection \<open>State preparation (lines 31 to 66)\<close>

definition state_preparation :: "widths \<Rightarrow> (circuit \<Rightarrow> py_error + circuit) list" where
  "state_preparation w =
     [h_gate (py_range P_START (E_START w)),
      barrier (Some ''P_Infinite_Phases''),
      cx P_START (E_START w),
      cx (P_START + 1) (E_START w + 1),
      barrier (Some ''E_Existence_Entanglement''),
      cx (E_START w) (R_START w),
      cx (E_START w + 1) (R_START w + 1),
      barrier (Some ''R_Equaddle_Enforcement''),
      p_gate (PHI * pi) (R_START w) ''R_Phi_Infinity_Fabric_0'',
      p_gate (PHI * pi) (R_START w + 1) ''R_Phi_Infinity_Fabric_1'',
      crz MASS_CONSTANT (E_START w) (R_START w) ''E_MC_Waveforms_Transfer'',
      barrier (Some ''Hyperdimensional_Energy_Layer'')]"

subsection \<open>Birth proclamation (lines 71 to 93) and trade (lines 101 to 109)\<close>

definition angle_no_mead :: real where
  "angle_no_mead = pi / sqrt 5"

definition birth_proclamation_circuit :: "widths \<Rightarrow> int \<Rightarrow> circuit \<Rightarrow> py_error + circuit" where
  "birth_proclamation_circuit w entity_index =
     run [x_gate (V_START w + 1),
          barrier (Some (''V_TPP_Proclamation_'' @ py_str entity_index)),
          cx (E_START w) (V_START w),
          cx (E_START w + 1) (V_START w + 1),
          rx angle_no_mead (V_START w) ''V_Hyperdimensional_Rx'',
          rz PNEUMATIC_DENSITY (V_START w + 1) ''V_Pneumatic_Macro_Density'',
          barrier None]"

definition apply_trade_barter :: "widths \<Rightarrow> circuit \<Rightarrow> py_error + circuit" where
  "apply_trade_barter w =
     run [append_labelled CSwapGate [V_START w, R_START w, R_START w + 1] ''TPP_Trade_Barter_CSWAP'',
          barrier (Some ''R_Value_Exchange_Final'')]"

subsection \<open>The whole composition (lines 31 to 112)\<close>

text \<open>
  \<open>prepare\<close> is the script from the creation of the circuit to the return of
  \<open>birth_proclamation_circuit\<close> (lines 31 to 96); \<open>compose\<close> goes on with
  \<open>apply_trade_barter\<close> (line 112). An exception ends the script, so the result of
  \<open>prepare\<close> is the circuit as it is when line 112 is reached.
\<close>

definition prepare :: "widths \<Rightarrow> py_error + circuit" where
  "prepare w =
     (case QuantumCircuit (TOTAL_QUBITS w) ''Equaddle_Nights_Landing_Final'' of
        Inl e \<Rightarrow> Inl e
      | Inr qc \<Rightarrow> run (state_preparation w @ [birth_proclamation_circuit w 1]) qc)"

definition compose :: "widths \<Rightarrow> py_error + circuit" where
  "compose w = (case prepare w of Inl e \<Rightarrow> Inl e | Inr qc \<Rightarrow> apply_trade_barter w qc)"

subsection \<open>Observations on a recorded instruction list\<close>

















subsection \<open>The specification's vocabulary for the composer\<close>




section \<open>The footprint check (lines 133 to 151)\<close>

subsection \<open>Python's true division of integers\<close>

text \<open>
  \<open>max_count / total_shots\<close> divides two Python integers and yields a float: the double
  nearest to the exact quotient (ties to the even significand), \<open>ZeroDivisionError\<close> for a
  zero divisor, \<open>OverflowError\<close> when the rounded quotient is beyond the largest double.
  A finite double is carried as the rational number it denotes (the two zeros are not told
  apart; no operation here yields an infinity or a NaN).

  \<open>round_half_even_div n d\<close> is the integer nearest to \<open>n / d\<close> for \<open>d > 0\<close>.
  \<open>binade a b\<close> is the exponent \<open>e\<close> with \<open>2\<^sup>e \<le> a / b < 2\<^sup>e\<^sup>+\<^sup>1\<close> for positive \<open>a\<close>,
  \<open>b\<close>. Doubles of that binade are the multiples of \<open>2\<^sup>e\<^sup>-\<^sup>5\<^sup>2\<close>; below the smallest
  normal exponent \<open>-1022\<close> the spacing stays \<open>2\<^sup>-\<^sup>1\<^sup>0\<^sup>7\<^sup>4\<close>. \<open>significand a b\<close> is the
  quotient in units of that spacing, rounded; the arithmetic is on integers, as the
  interpreter's is.
\<close>

definition round_half_even_div :: "int \<Rightarrow> int \<Rightarrow> int" where
  "round_half_even_div n d =
     (let q = n div d; r = n mod d
      in if 2 * r < d then q else if d < 2 * r then q + 1 else if even q then q else q + 1)"

definition binade :: "int \<Rightarrow> int \<Rightarrow> int" where
  "binade a b =
     (let d = bitlen a - bitlen b
      in if (if 0 \<le> d then b * 2 ^ nat d \<le> a else b \<le> a * 2 ^ nat (- d)) then d else d - 1)"

definition ulp_exponent :: "int \<Rightarrow> int \<Rightarrow> int" where
  "ulp_exponent a b = max (binade a b) (- 1022) - 52"

definition significand :: "int \<Rightarrow> int \<Rightarrow> int" where
  "significand a b =
     (let u = ulp_exponent a b
      in if 0 \<le> u then round_half_even_div a (b * 2 ^ nat u)
         else round_half_even_div (a * 2 ^ nat (- u)) b)"

definition nearest_double :: "int \<Rightarrow> int \<Rightarrow> rat" where
  "nearest_double a b =
     (if a = 0 then 0 else of_int (significand a b) * 2 powi ulp_exponent a b)"

definition py_truediv :: "int \<Rightarrow> int \<Rightarrow> py_error + rat" where
  "py_truediv a b =
     (if b = 0 then Inl ZeroDivisionError
      else let r = nearest_double \<bar>a\<bar> \<bar>b\<bar>
           in if 2 ^ 1024 \<le> r then Inl OverflowError
              else Inr (if (a < 0) = (b < 0) then r else - r))"

text \<open>The float literal \<open>0.15\<close> of line 142: the double nearest to 15/100.\<close>

definition threshold_literal :: rat where
  "threshold_literal = nearest_double 15 100"

subsection \<open>The function\<close>

text \<open>
  \<open>counts\<close> is a dictionary from bitstrings to integers; it is an association list in
  insertion order here (a dictionary has distinct keys). The function reads
  \<open>counts.values()\<close> only. \<open>max\<close> of an empty sequence raises \<open>ValueError\<close>.
\<close>

type_synonym counts = "(string \<times> int) list"

definition values_of :: "counts \<Rightarrow> int list" where
  "values_of counts = map snd counts"

fun py_max :: "int list \<Rightarrow> py_error + int" where
  "py_max [] = Inl ValueError"
| "py_max (x # xs) = Inr (fold max xs x)"

definition py_sum :: "int list \<Rightarrow> int" where
  "py_sum xs = sum_list xs"

text \<open>
  The function prints one of two reports and returns nothing. The model returns what the
  reports are made of: the two local variables, the quotient, and the branch taken.
  \<open>FLUX_DETECTED\<close> is the report \<^verbatim>\<open>FLUX DETECTED (High Footprint)\<close>, which the
  specification calls CONCENTRATED; \<open>ABSOLUTE\<close> is the report
  \<^verbatim>\<open>ABSOLUTE (Low Footprint)\<close>, which the specification calls FRAGMENTED.
\<close>

datatype footprint_status = FLUX_DETECTED | ABSOLUTE

record footprint =
  max_count :: int
  total_shots :: int
  ratio :: rat
  status :: footprint_status

definition check_accountability_footprint :: "counts \<Rightarrow> py_error + footprint" where
  "check_accountability_footprint counts =
     (case py_max (values_of counts) of
        Inl e \<Rightarrow> Inl e
      | Inr mc \<Rightarrow>
          (let ts = py_sum (values_of counts)
           in case py_truediv mc ts of
                Inl e \<Rightarrow> Inl e
              | Inr r \<Rightarrow>
                  Inr \<lparr>max_count = mc, total_shots = ts, ratio = r,
                       status = (if threshold_literal < r then FLUX_DETECTED else ABSOLUTE)\<rparr>))"

section \<open>Lemmas about the circuit recorder\<close>

lemmas start_defs = P_START_def E_START_def R_START_def V_START_def TOTAL_QUBITS_def





subsection \<open>Gate calls whose indices are not negative\<close>












text \<open>The exchange of line 107 raises, whatever the circuit is.\<close>

lemma apply_trade_barter_raises: "apply_trade_barter w qc = Inl TypeError"
  by (simp add: apply_trade_barter_def append_labelled_def)


lemma compose_never_returns: "compose w \<noteq> Inr qc"
  by (simp add: compose_def apply_trade_barter_raises split: sum.splits)


subsection \<open>Gate calls in general\<close>




















subsection \<open>Barriers and stages of the recorded kinds\<close>








section \<open>Theorems about the composer\<close>

text \<open>
  C9. The register layout is a partition of the bit array. For widths that are not negative,
  each group starts at the sum of the widths of the groups before it (Phase at 0), the four
  groups together are the interval from 0 up to the total register size, and two different
  groups share no bit. Each group is an interval, so the groups are contiguous.
\<close>

theorem register_layout_partition:
  assumes "nonneg_widths w"
  shows "group_start w Phase = 0 \<and>
    group_start w Existence = PHASE_QUBITS w \<and>
    group_start w Resource = PHASE_QUBITS w + EXISTENCE_QUBITS w \<and>
    group_start w Value_group = PHASE_QUBITS w + EXISTENCE_QUBITS w + RESOURCE_QUBITS w \<and>
    group_bits w Phase \<union> group_bits w Existence \<union> group_bits w Resource \<union>
      group_bits w Value_group = {0..<TOTAL_QUBITS w} \<and>
    (\<forall>g g'. g \<noteq> g' \<longrightarrow> group_bits w g \<inter> group_bits w g' = {})"
proof -
  have starts: "group_start w Phase = 0 \<and>
    group_start w Existence = PHASE_QUBITS w \<and>
    group_start w Resource = PHASE_QUBITS w + EXISTENCE_QUBITS w \<and>
    group_start w Value_group = PHASE_QUBITS w + EXISTENCE_QUBITS w + RESOURCE_QUBITS w"
    by (simp add: start_defs)
  have union: "group_bits w Phase \<union> group_bits w Existence \<union> group_bits w Resource \<union>
      group_bits w Value_group = {0..<TOTAL_QUBITS w}"
    using assms by (auto simp: group_bits_def start_defs nonneg_widths_def)
  have disjoint: "group_bits w g \<inter> group_bits w g' = {}" if "g \<noteq> g'" for g g'
    using assms that
    by (cases g; cases g') (auto simp: group_bits_def start_defs nonneg_widths_def)
  from starts union disjoint show ?thesis by blast
qed

theorem register_layout_partition_witness:
  "nonneg_widths reference_widths \<and>
   group_start reference_widths Value_group = 6 \<and>
   group_bits reference_widths Phase \<union> group_bits reference_widths Existence \<union>
     group_bits reference_widths Resource \<union> group_bits reference_widths Value_group = {0..<8} \<and>
   group_bits reference_widths Resource \<inter> group_bits reference_widths Value_group = {}"
proof -
  have n: "nonneg_widths reference_widths"
    by (simp add: nonneg_widths_def reference_widths_def)
  from register_layout_partition [OF n] n show ?thesis
    by (simp add: reference_widths_def TOTAL_QUBITS_def)
qed












section \<open>Lemmas about the float quotient\<close>

lemma round_half_even_div_le:
  assumes "0 < d" and "n \<le> M * d"
  shows "round_half_even_div n d \<le> M"
proof -
  from assms have q: "n div d \<le> M"
    using zdiv_mono1 [of n "M * d" d] by simp
  show ?thesis
  proof (cases "n div d = M")
    case True
    from True have "M * d + n mod d = n"
      using mult_div_mod_eq [of d n] by (simp add: mult.commute)
    with assms(2) have "n mod d \<le> 0" by linarith
    moreover from assms(1) have "0 \<le> n mod d" by simp
    ultimately have "n mod d = 0" by simp
    with assms(1) True show ?thesis by (simp add: round_half_even_div_def Let_def)
  next
    case False
    with q have "n div d + 1 \<le> M" by simp
    with q show ?thesis by (auto simp: round_half_even_div_def Let_def)
  qed
qed

lemma round_half_even_div_nonneg:
  assumes "0 < d" and "0 \<le> n"
  shows "0 \<le> round_half_even_div n d"
proof -
  from assms have "0 \<le> n div d" by (simp add: pos_imp_zdiv_nonneg_iff)
  then show ?thesis by (auto simp: round_half_even_div_def Let_def)
qed

text \<open>The rounded integer is within one half of the exact quotient.\<close>

lemma round_half_even_div_error:
  assumes "0 < d"
  shows "\<bar>rat_of_int (round_half_even_div n d) - of_int n / of_int d\<bar> \<le> 1 / 2"
proof -
  define q where "q = n div d"
  define r where "r = n mod d"
  have n: "n = q * d + r" by (simp add: q_def r_def)
  from assms have r: "0 \<le> r" "r < d" by (simp_all add: r_def)
  from assms have d: "(0::rat) < of_int d" by simp
  have quot: "rat_of_int n / of_int d = of_int q + of_int r / of_int d"
    using d by (simp add: n field_simps)
  have lo: "2 * r < d \<Longrightarrow> rat_of_int r / of_int d \<le> 1 / 2"
  proof -
    assume "2 * r < d"
    then have "rat_of_int (2 * r) \<le> of_int d" by (simp only: of_int_le_iff)
    with d show ?thesis by (simp add: field_simps)
  qed
  have hi: "d \<le> 2 * r \<Longrightarrow> 1 / 2 \<le> rat_of_int r / of_int d"
  proof -
    assume "d \<le> 2 * r"
    then have "rat_of_int d \<le> of_int (2 * r)" by (simp only: of_int_le_iff)
    with d show ?thesis by (simp add: field_simps)
  qed
  have nonneg: "0 \<le> rat_of_int r / of_int d"
    using r d by simp
  have lt1: "rat_of_int r / of_int d < 1"
    using r d by simp
  have eqhalf: "rat_of_int r / of_int d = 1 / 2" if "\<not> 2 * r < d" and "\<not> d < 2 * r"
  proof -
    from that have "d = 2 * r" by simp
    then have "rat_of_int d = 2 * of_int r" by simp
    with d show ?thesis by simp
  qed
  show ?thesis
    unfolding round_half_even_div_def Let_def q_def [symmetric] r_def [symmetric] quot
    using lo hi nonneg lt1 eqhalf by (auto simp: abs_if)
qed


lemma bitlen_mono: "a \<le> b \<Longrightarrow> bitlen a \<le> bitlen b"
  by (simp add: bitlen_def floorlog_mono)

lemma ulp_exponent_le:
  assumes "0 < b" and "a \<le> b * 2 ^ k"
  shows "ulp_exponent a b \<le> int k - 52"
proof -
  from assms have "bitlen a \<le> bitlen (b * 2 ^ k)" by (intro bitlen_mono)
  with assms(1) have "bitlen a - bitlen b \<le> int k" by simp
  then have "binade a b \<le> int k" by (simp add: binade_def Let_def)
  then show ?thesis by (simp add: ulp_exponent_def)
qed

lemma nearest_double_significand:
  "a \<noteq> 0 \<Longrightarrow> nearest_double a b = of_int (significand a b) * 2 powi ulp_exponent a b"
  by (simp add: nearest_double_def)

lemma significand_le:
  assumes "0 < b" and "a \<le> b * 2 ^ k"
  shows "significand a b \<le> 2 ^ nat (int k - ulp_exponent a b)"
proof -
  define u where "u = ulp_exponent a b"
  define j where "j = nat (int k - u)"
  from ulp_exponent_le [OF assms] have j: "int j = int k - u" by (simp add: j_def u_def)
  show ?thesis
  proof (cases "0 \<le> u")
    case True
    with j have "k = nat u + j" by linarith
    with assms(2) have "a \<le> 2 ^ j * (b * 2 ^ nat u)"
      by (simp add: power_add mult.commute mult.left_commute)
    with assms(1) True show ?thesis
      unfolding significand_def Let_def u_def [symmetric] j_def [symmetric]
      by (simp add: round_half_even_div_le)
  next
    case False
    with j have "j = k + nat (- u)" by linarith
    moreover from assms(2) have "a * 2 ^ nat (- u) \<le> b * 2 ^ k * 2 ^ nat (- u)"
      by (simp add: mult_right_mono)
    ultimately have "a * 2 ^ nat (- u) \<le> 2 ^ j * b"
      by (simp add: power_add mult.commute mult.left_commute)
    with assms(1) False show ?thesis
      unfolding significand_def Let_def u_def [symmetric] j_def [symmetric]
      by (simp add: round_half_even_div_le)
  qed
qed

lemma nearest_double_le:
  assumes "0 < b" and "0 \<le> a" and "a \<le> b * 2 ^ k"
  shows "nearest_double a b \<le> 2 ^ k"
proof (cases "a = 0")
  case True
  then show ?thesis by (simp add: nearest_double_def)
next
  case False
  define u where "u = ulp_exponent a b"
  define j where "j = nat (int k - u)"
  from ulp_exponent_le [OF assms(1,3)] have j: "int j = int k - u" by (simp add: j_def u_def)
  from significand_le [OF assms(1,3)] have m: "significand a b \<le> 2 ^ j"
    by (simp add: j_def u_def)
  have "nearest_double a b = of_int (significand a b) * 2 powi u"
    using False by (simp add: nearest_double_significand u_def)
  also have "\<dots> \<le> of_int (2 ^ j) * 2 powi u"
    using m by (intro mult_right_mono) (simp_all add: of_int_le_iff [symmetric] del: of_int_le_iff)
  also have "\<dots> = 2 powi (int j + u)"
    by (simp add: power_int_add)
  also have "\<dots> = 2 ^ k"
    using j by simp
  finally show ?thesis .
qed

lemma nearest_double_nonneg:
  assumes "0 < b" and "0 \<le> a"
  shows "0 \<le> nearest_double a b"
  using assms
  by (auto simp: nearest_double_def significand_def Let_def
      intro!: mult_nonneg_nonneg round_half_even_div_nonneg)

lemma significand_error:
  assumes "0 < b"
  shows "\<bar>rat_of_int (significand a b) - of_int a / of_int b / 2 powi ulp_exponent a b\<bar> \<le> 1 / 2"
proof -
  define u where "u = ulp_exponent a b"
  show ?thesis
  proof (cases "0 \<le> u")
    case True
    from assms have "0 < b * 2 ^ nat u" by simp
    from round_half_even_div_error [OF this, of a] True show ?thesis
      unfolding significand_def Let_def u_def [symmetric]
      by (simp add: power_int_def)
  next
    case False
    from round_half_even_div_error [OF assms, of "a * 2 ^ nat (- u)"] False show ?thesis
      unfolding significand_def Let_def u_def [symmetric]
      by (simp add: power_int_def field_simps)
  qed
qed

lemma nearest_double_error:
  assumes "0 < b" and "0 \<le> a"
  shows "\<bar>nearest_double a b - of_int a / of_int b\<bar> \<le> 2 powi ulp_exponent a b / 2"
proof (cases "a = 0")
  case True
  then show ?thesis by (simp add: nearest_double_def)
next
  case False
  define u :: rat where "u = 2 powi ulp_exponent a b"
  have u: "0 < u" by (simp add: u_def)
  define x where "x = rat_of_int a / of_int b / u"
  from significand_error [OF assms(1), of a] have "\<bar>rat_of_int (significand a b) - x\<bar> \<le> 1 / 2"
    by (simp add: x_def u_def)
  then have le: "\<bar>rat_of_int (significand a b) - x\<bar> * u \<le> 1 / 2 * u"
    using u by (intro mult_right_mono) simp_all
  have xu: "x * u = rat_of_int a / of_int b"
    using u by (simp add: x_def)
  have "\<bar>nearest_double a b - of_int a / of_int b\<bar> =
      \<bar>(rat_of_int (significand a b) - x) * u\<bar>"
    using False by (simp add: nearest_double_significand u_def [symmetric] left_diff_distrib xu)
  also have "\<dots> = \<bar>rat_of_int (significand a b) - x\<bar> * u"
    using u by (simp add: abs_mult)
  also note le
  finally show ?thesis by (simp add: u_def)
qed


subsection \<open>The binade of a quotient\<close>

lemma bitlen_bounds_rat:
  assumes "0 < a"
  shows "(2::rat) powi (bitlen a - 1) \<le> of_int a \<and> rat_of_int a < 2 powi bitlen a"
proof -
  from bitlen_bounds [OF assms] have 1: "2 ^ nat (bitlen a - 1) \<le> a" and 2: "a < 2 ^ nat (bitlen a)"
    by simp_all
  from assms have p: "1 \<le> bitlen a"
    by (simp add: bitlen_alt_def) 
  from 1 have "rat_of_int (2 ^ nat (bitlen a - 1)) \<le> of_int a" by (simp only: of_int_le_iff)
  moreover from 2 have "rat_of_int a < of_int (2 ^ nat (bitlen a))" by (simp only: of_int_less_iff)
  ultimately show ?thesis using p by (simp add: power_int_def)
qed

lemma binade_bounds:
  assumes "0 < a" and "0 < b"
  shows "(2::rat) powi binade a b \<le> of_int a / of_int b \<and>
    rat_of_int a / of_int b < 2 powi (binade a b + 1)"
proof -
  define d where "d = bitlen a - bitlen b"
  define c where "c \<longleftrightarrow> (if 0 \<le> d then b * 2 ^ nat d \<le> a else b \<le> a * 2 ^ nat (- d))"
  have b: "(0::rat) < of_int b" using assms by simp
  have c_iff: "c \<longleftrightarrow> rat_of_int b * 2 powi d \<le> of_int a"
  proof (cases "0 \<le> d")
    case True
    have "b * 2 ^ nat d \<le> a \<longleftrightarrow> rat_of_int (b * 2 ^ nat d) \<le> of_int a"
      by (simp only: of_int_le_iff)
    with True show ?thesis by (simp add: c_def power_int_def)
  next
    case False
    have "b \<le> a * 2 ^ nat (- d) \<longleftrightarrow> rat_of_int b \<le> of_int (a * 2 ^ nat (- d))"
      by (simp only: of_int_le_iff)
    with False show ?thesis by (simp add: c_def power_int_def field_simps)
  qed
  have e: "binade a b = (if c then d else d - 1)"
    by (simp add: binade_def Let_def d_def c_def)
  from bitlen_bounds_rat [OF assms(1)] bitlen_bounds_rat [OF assms(2)]
  have a1: "(2::rat) powi (bitlen a - 1) \<le> of_int a" and a2: "rat_of_int a < 2 powi bitlen a"
    and b1: "(2::rat) powi (bitlen b - 1) \<le> of_int b" and b2: "rat_of_int b < 2 powi bitlen b"
    by simp_all
  have upper: "rat_of_int a < of_int b * 2 powi (d + 1)"
  proof -
    have "rat_of_int a < 2 powi bitlen a" by (rule a2)
    also have "\<dots> = 2 powi (bitlen b - 1) * 2 powi (d + 1)"
      by (simp add: d_def power_int_add [symmetric])
    also have "\<dots> \<le> of_int b * 2 powi (d + 1)"
      using b1 by (intro mult_right_mono) simp_all
    finally show ?thesis .
  qed
  have lower: "rat_of_int b * 2 powi (d - 1) \<le> of_int a"
  proof -
    have "rat_of_int b * 2 powi (d - 1) \<le> 2 powi bitlen b * 2 powi (d - 1)"
      using b2 by (intro mult_right_mono) simp_all
    also have "\<dots> = 2 powi (bitlen a - 1)"
      by (simp add: d_def power_int_add [symmetric])
    also note a1
    finally show ?thesis .
  qed
  show ?thesis
  proof (cases c)
    case True
    with c_iff upper b show ?thesis
      by (simp add: e field_simps)
  next
    case False
    with c_iff have "rat_of_int a < of_int b * 2 powi d" by simp
    with lower b False show ?thesis
      by (simp add: e field_simps)
  qed
qed


lemma binade_less:
  assumes "0 < a" and "0 < b" and "rat_of_int a / of_int b < 2 powi k"
  shows "binade a b < k"
proof (rule ccontr)
  assume "\<not> binade a b < k"
  then have "(2::rat) powi k \<le> 2 powi binade a b"
    by (intro power_int_increasing) simp_all
  with binade_bounds [OF assms(1,2)] assms(3) show False by simp
qed

lemma binade_ge:
  assumes "0 < a" and "0 < b" and "2 powi k \<le> rat_of_int a / of_int b"
  shows "k \<le> binade a b"
proof (rule ccontr)
  assume "\<not> k \<le> binade a b"
  then have "(2::rat) powi (binade a b + 1) \<le> 2 powi k"
    by (intro power_int_increasing) simp_all
  with binade_bounds [OF assms(1,2)] assms(3) show False by simp
qed

lemma round_half_even_div_le_half:
  assumes "0 < d" and "2 * n < (2 * M + 1) * d"
  shows "round_half_even_div n d \<le> M"
proof -
  define q where "q = n div d"
  define r where "r = n mod d"
  have n: "n = q * d + r" by (simp add: q_def r_def)
  from assms(1) have r: "0 \<le> r" "r < d" by (simp_all add: r_def)
  have q: "q \<le> M"
  proof (rule ccontr)
    assume "\<not> q \<le> M"
    then have "M + 1 \<le> q" by simp
    with assms(1) have "(M + 1) * d \<le> q * d" by (intro mult_right_mono) simp_all
    with assms(2) r show False by (simp add: n algebra_simps)
  qed
  show ?thesis
  proof (cases "q = M")
    case True
    with assms(2) have "2 * r < d" by (simp add: n algebra_simps)
    then show ?thesis
      unfolding round_half_even_div_def Let_def q_def [symmetric] r_def [symmetric]
      using True by simp
  next
    case False
    with q have "q + 1 \<le> M" by simp
    with q show ?thesis
      unfolding round_half_even_div_def Let_def q_def [symmetric] r_def [symmetric]
      by auto
  qed
qed

subsection \<open>Evaluating the quotient on numerals\<close>

lemma bitlen_numeral_simps:
  "bitlen 1 = 1"
  "bitlen (numeral (Num.Bit0 n)) = bitlen (numeral n) + 1"
  "bitlen (numeral (Num.Bit1 n)) = bitlen (numeral n) + 1"
    apply (subst compute_bitlen, simp)
   apply (subst compute_bitlen, simp)
  apply (subst compute_bitlen, simp)
  done

lemmas float_eval = py_truediv_def nearest_double_def significand_def ulp_exponent_def binade_def
  round_half_even_div_def bitlen_numeral_simps Let_def power_int_minus

lemma threshold_literal_value: "threshold_literal = 5404319552844595 / 2 ^ 55"
  by (simp add: threshold_literal_def float_eval)

subsection \<open>The threshold comparison\<close>

lemma threshold_literal_below: "threshold_literal < 3 / 20"
  by (simp add: threshold_literal_value)

text \<open>
  For totals up to \<open>2\<^sup>5\<^sup>0\<close> the comparison of the two floats decides the comparison of the
  exact quotient with 3/20.
\<close>

lemma nearest_double_le_threshold:
  assumes "0 \<le> a" and "0 < b" and "20 * a \<le> 3 * b"
  shows "nearest_double a b \<le> threshold_literal"
proof (cases "a = 0")
  case True
  then show ?thesis by (simp add: nearest_double_def threshold_literal_value)
next
  case False
  with assms(1) have a: "0 < a" by simp
  have b: "(0::rat) < of_int b" using assms(2) by simp
  let ?q = "rat_of_int a / of_int b"
  show ?thesis
  proof (cases "8 * a < b")
    case True
    then have "rat_of_int (8 * a) < of_int b" by (simp only: of_int_less_iff)
    with b have q: "?q < 2 powi (- 3)" by (simp add: power_int_minus field_simps)
    from binade_less [OF a assms(2) q] have "ulp_exponent a b \<le> - 56"
      by (simp add: ulp_exponent_def)
    then have "(2::rat) powi ulp_exponent a b \<le> 2 powi (- 56)"
      by (intro power_int_increasing) simp_all
    then have u: "(2::rat) powi ulp_exponent a b \<le> 1 / 72057594037927936"
      by (simp add: power_int_minus)
    from q have q': "?q < 1 / 8" by (simp add: power_int_minus)
    have t: "threshold_literal = 5404319552844595 / 36028797018963968"
      by (simp add: threshold_literal_value)
    from nearest_double_error [OF assms(2,1)]
    have "nearest_double a b - ?q \<le> 2 powi ulp_exponent a b / 2"
      by (simp only: abs_le_iff)
    with u q' show ?thesis unfolding t by linarith
  next
    case False
    then have "b \<le> 8 * a" by simp
    then have "rat_of_int b \<le> of_int (8 * a)" by (simp only: of_int_le_iff)
    with b have lo: "2 powi (- 3) \<le> ?q" by (simp add: power_int_minus field_simps)
    from assms(3) have "rat_of_int (20 * a) \<le> of_int (3 * b)" by (simp only: of_int_le_iff)
    with b have "?q < 2 powi (- 2)" by (simp add: power_int_minus field_simps)
    from binade_less [OF a assms(2) this] binade_ge [OF a assms(2) lo]
    have u: "ulp_exponent a b = - 55" by (simp add: ulp_exponent_def)
    have "2 * (a * 2 ^ 55) < (2 * 5404319552844595 + 1) * b"
      using assms(2,3) by simp
    from round_half_even_div_le_half [OF assms(2) this]
    have "significand a b \<le> 5404319552844595"
      by (simp add: significand_def u)
    then have "rat_of_int (significand a b) \<le> 5404319552844595"
      by (simp only: of_int_le_iff [symmetric] of_int_numeral)
    then show ?thesis
      using a by (simp add: nearest_double_def u threshold_literal_value power_int_minus field_simps)
  qed
qed

lemma threshold_less_nearest_double:
  assumes "a \<le> b" and "0 < b" and "b \<le> 2 ^ 50" and "3 * b < 20 * a"
  shows "threshold_literal < nearest_double a b"
proof -
  from assms have a: "0 < a" by simp
  have b: "(0::rat) < of_int b" using assms(2) by simp
  let ?q = "rat_of_int a / of_int b"
  show ?thesis
  proof (cases "4 * a < b")
    case True
    then have "rat_of_int (4 * a) < of_int b" by (simp only: of_int_less_iff)
    with b have q: "?q < 2 powi (- 2)" by (simp add: power_int_minus field_simps)
    from binade_less [OF a assms(2) q] have "ulp_exponent a b \<le> - 55"
      by (simp add: ulp_exponent_def)
    then have "(2::rat) powi ulp_exponent a b \<le> 2 powi (- 55)"
      by (intro power_int_increasing) simp_all
    then have u: "(2::rat) powi ulp_exponent a b \<le> 1 / 36028797018963968"
      by (simp add: power_int_minus)
    from nearest_double_error [OF assms(2), of a] a
    have "?q - nearest_double a b \<le> 2 powi ulp_exponent a b / 2"
      by (simp only: abs_le_iff) simp
    with u have err: "?q - 1 / 72057594037927936 \<le> nearest_double a b"
      by linarith
    from assms(4) have "3 * b + 1 \<le> 20 * a" by simp
    then have "rat_of_int (3 * b + 1) \<le> of_int (20 * a)" by (simp only: of_int_le_iff)
    then have "rat_of_int (3 * b + 1) / of_int b \<le> of_int (20 * a) / of_int b"
      using b by (intro divide_right_mono) simp_all
    then have 1: "3 + 1 / rat_of_int b \<le> 20 * ?q"
      using b by (simp add: add_divide_distrib)
    from assms(3) have "rat_of_int b \<le> of_int (2 ^ 50)" by (simp only: of_int_le_iff)
    then have "rat_of_int b \<le> 1125899906842624" by simp
    then have "1 / 1125899906842624 \<le> 1 / rat_of_int b"
      using b by (intro divide_left_mono) simp_all
    with 1 err threshold_literal_below show ?thesis by linarith
  next
    case False
    then have "b \<le> 4 * a" by simp
    then have "rat_of_int b \<le> of_int (4 * a)" by (simp only: of_int_le_iff)
    with b have q: "1 / 4 \<le> ?q" by (simp add: field_simps)
    from ulp_exponent_le [of b a 0] assms have "ulp_exponent a b \<le> - 52" by simp
    then have "(2::rat) powi ulp_exponent a b \<le> 2 powi (- 52)"
      by (intro power_int_increasing) simp_all
    then have u: "(2::rat) powi ulp_exponent a b \<le> 1 / 4503599627370496"
      by (simp add: power_int_minus)
    from nearest_double_error [OF assms(2), of a] a
    have "?q - nearest_double a b \<le> 2 powi ulp_exponent a b / 2"
      by (simp only: abs_le_iff) simp
    with u q threshold_literal_below show ?thesis by linarith
  qed
qed

lemma threshold_exact:
  assumes "0 \<le> a" and "a \<le> b" and "0 < b" and "b \<le> 2 ^ 50"
  shows "threshold_literal < nearest_double a b \<longleftrightarrow> 3 * b < 20 * a"
  using nearest_double_le_threshold [OF assms(1,3), of] threshold_less_nearest_double [OF assms(2,3,4)]
  by (cases "3 * b < 20 * a") (simp_all add: not_less)

section \<open>Lemmas about the footprint check\<close>

lemma py_max_Max: "xs \<noteq> [] \<Longrightarrow> py_max xs = Inr (Max (set xs))"
  by (cases xs) (simp_all add: Max.set_eq_fold [symmetric])

lemma member_le_sum_list_int:
  fixes xs :: "int list"
  assumes "\<forall>x\<in>set xs. 0 \<le> x" and "y \<in> set xs"
  shows "y \<le> sum_list xs"
  using assms
proof (induction xs)
  case Nil
  then show ?case by simp
next
  case (Cons x xs)
  have "0 \<le> sum_list xs" using Cons.prems(1) by (simp add: sum_list_nonneg)
  with Cons show ?case by auto
qed

lemma Max_le_sum_list:
  fixes xs :: "int list"
  assumes "xs \<noteq> []" and "\<forall>x\<in>set xs. 0 \<le> x"
  shows "0 \<le> Max (set xs) \<and> Max (set xs) \<le> sum_list xs"
proof -
  from assms(1) have "Max (set xs) \<in> set xs" by simp
  with assms(2) member_le_sum_list_int [OF assms(2)] show ?thesis by blast
qed

lemma check_accountability_footprint_unfold:
  assumes "counts \<noteq> []"
  shows "check_accountability_footprint counts =
    (case py_truediv (Max (set (values_of counts))) (sum_list (values_of counts)) of
       Inl e \<Rightarrow> Inl e
     | Inr r \<Rightarrow>
         Inr \<lparr>max_count = Max (set (values_of counts)), total_shots = sum_list (values_of counts),
              ratio = r,
              status = (if threshold_literal < r then FLUX_DETECTED else ABSOLUTE)\<rparr>)"
proof -
  from assms have "values_of counts \<noteq> []" by (simp add: values_of_def)
  then show ?thesis
    by (simp add: check_accountability_footprint_def py_max_Max py_sum_def Let_def)
qed

lemma py_truediv_nonneg:
  assumes "0 \<le> a" and "a \<le> b" and "0 < b"
  shows "py_truediv a b = Inr (nearest_double a b)"
proof -
  from nearest_double_le [of b a 0] assms have "nearest_double a b \<le> 1" by simp
  also have "(1::rat) < 2 ^ 1024" by simp
  finally have "\<not> 2 ^ 1024 \<le> nearest_double a b" by simp
  with assms show ?thesis by (simp add: py_truediv_def Let_def)
qed

lemma nearest_double_error_unit:
  assumes "0 \<le> a" and "a \<le> b" and "0 < b"
  shows "\<bar>nearest_double a b - of_int a / of_int b\<bar> \<le> 1 / 2 ^ 53"
proof -
  from ulp_exponent_le [of b a 0] assms have u: "ulp_exponent a b \<le> - 52" by simp
  have "(2::rat) powi ulp_exponent a b \<le> 2 powi (- 52)"
    using u by (intro power_int_increasing) simp_all
  then have "(2::rat) powi ulp_exponent a b / 2 \<le> 1 / 2 ^ 53"
    by (simp add: power_int_minus field_simps)
  with nearest_double_error [of b a] assms show ?thesis by linarith
qed

lemma py_truediv_in_range:
  assumes "b \<noteq> 0" and "\<bar>a\<bar> \<le> \<bar>b\<bar> * 2 ^ 1023"
  shows "py_truediv a b =
    Inr (if (a < 0) = (b < 0) then nearest_double \<bar>a\<bar> \<bar>b\<bar> else - nearest_double \<bar>a\<bar> \<bar>b\<bar>)"
proof -
  from assms(1) have "0 < \<bar>b\<bar>" by simp
  from nearest_double_le [OF this _ assms(2)] have "nearest_double \<bar>a\<bar> \<bar>b\<bar> \<le> 2 ^ 1023" by simp
  also have "(2::rat) ^ 1023 < 2 ^ 1024" by simp
  finally have "\<not> 2 ^ 1024 \<le> nearest_double \<bar>a\<bar> \<bar>b\<bar>" by simp
  with assms(1) show ?thesis by (simp add: py_truediv_def Let_def)
qed

lemma py_truediv_cases:
  "py_truediv a b = Inl ZeroDivisionError \<and> b = 0 \<or>
   py_truediv a b = Inl OverflowError \<and> b \<noteq> 0 \<or>
   (\<exists>r. py_truediv a b = Inr r) \<and> b \<noteq> 0"
  by (simp add: py_truediv_def Let_def)

lemma check_accountability_footprint_Nil: "check_accountability_footprint [] = Inl ValueError"
  by (simp add: check_accountability_footprint_def values_of_def)

section \<open>Theorems about the footprint check\<close>

text \<open>
  C1. For every non-empty table of non-negative counts with a positive total, the check
  returns (it raises nothing); the ratio it computes is the float quotient of the maximum
  count by the sum of the counts, which is within \<open>2\<^sup>-\<^sup>5\<^sup>3\<close> of the exact quotient; and the
  report is FLUX DETECTED (CONCENTRATED) if and only if that ratio is greater than the
  threshold literal 0.15, and ABSOLUTE (FRAGMENTED) otherwise, so also when the ratio equals
  the threshold. For totals up to \<open>2\<^sup>5\<^sup>0\<close> the comparison of the floats agrees with the
  comparison of the exact quotient with 15/100.
\<close>

theorem footprint_classification:
  assumes "counts \<noteq> []" and "\<forall>c\<in>set (values_of counts). 0 \<le> c"
    and "0 < sum_list (values_of counts)"
  shows "let mc = Max (set (values_of counts)); ts = sum_list (values_of counts);
             r = nearest_double mc ts
         in check_accountability_footprint counts =
              Inr \<lparr>max_count = mc, total_shots = ts, ratio = r,
                   status = (if threshold_literal < r then FLUX_DETECTED else ABSOLUTE)\<rparr> \<and>
            \<bar>r - of_int mc / of_int ts\<bar> \<le> 1 / 2 ^ 53 \<and>
            (ts \<le> 2 ^ 50 \<longrightarrow> (threshold_literal < r \<longleftrightarrow> 15 / 100 < rat_of_int mc / of_int ts))"
proof -
  let ?mc = "Max (set (values_of counts))" and ?ts = "sum_list (values_of counts)"
  from assms(1) have ne: "values_of counts \<noteq> []" by (simp add: values_of_def)
  from Max_le_sum_list [OF ne assms(2)]
  have m: "0 \<le> ?mc" "?mc \<le> ?ts" by simp_all
  have exact: "threshold_literal < nearest_double ?mc ?ts \<longleftrightarrow> 15 / 100 < rat_of_int ?mc / of_int ?ts"
    if "?ts \<le> 2 ^ 50"
  proof -
    have "3 * ?ts < 20 * ?mc \<longleftrightarrow> rat_of_int (3 * ?ts) < of_int (20 * ?mc)"
      by (simp only: of_int_less_iff)
    also have "\<dots> \<longleftrightarrow> 15 / 100 < rat_of_int ?mc / of_int ?ts"
      using assms(3) by (simp add: field_simps)
    finally show ?thesis
      using threshold_exact [OF m assms(3) that] by simp
  qed
  from py_truediv_nonneg [OF m assms(3)] nearest_double_error_unit [OF m assms(3)] exact
  show ?thesis
    by (simp add: check_accountability_footprint_unfold [OF assms(1)] Let_def)
qed

text \<open>
  The specification's first example, and a table whose exact ratio is 3/20: its float ratio
  is the threshold literal itself, and the report is ABSOLUTE.
\<close>

theorem footprint_classification_witness:
  "check_accountability_footprint [(''00'', 1024)] =
     Inr \<lparr>max_count = 1024, total_shots = 1024, ratio = 1, status = FLUX_DETECTED\<rparr> \<and>
   check_accountability_footprint
     [(''000'', 3), (''001'', 3), (''010'', 3), (''011'', 3), (''100'', 3), (''101'', 3), (''110'', 2)] =
     Inr \<lparr>max_count = 3, total_shots = 20, ratio = threshold_literal, status = ABSOLUTE\<rparr>"
proof -
  have 1: "nearest_double 1024 1024 = 1" by (simp add: float_eval)
  have 2: "nearest_double 3 20 = threshold_literal" by (simp add: threshold_literal_value float_eval)
  from footprint_classification [of "[(''00'', 1024)]"] 1
  have "check_accountability_footprint [(''00'', 1024)] =
     Inr \<lparr>max_count = 1024, total_shots = 1024, ratio = 1, status = FLUX_DETECTED\<rparr>"
    by (simp add: values_of_def threshold_literal_value Let_def)
  moreover
  from footprint_classification [of
      "[(''000'', 3), (''001'', 3), (''010'', 3), (''011'', 3), (''100'', 3), (''101'', 3), (''110'', 2)]"] 2
  have "check_accountability_footprint
     [(''000'', 3), (''001'', 3), (''010'', 3), (''011'', 3), (''100'', 3), (''101'', 3), (''110'', 2)] =
     Inr \<lparr>max_count = 3, total_shots = 20, ratio = threshold_literal, status = ABSOLUTE\<rparr>"
    by (simp add: values_of_def Let_def)
  ultimately show ?thesis by simp
qed

text \<open>
  C2 (as amended). The check does not look at the sign of a count and has no
  \<open>NegativeCount\<close> error. For a table with a negative count it raises
  \<open>ZeroDivisionError\<close> when the counts sum to zero, and otherwise (as long as the quotient
  is within the range of a float) it returns a report computed by the same rule from the
  maximum and the sum.
\<close>

theorem negative_counts_are_not_rejected:
  assumes "\<exists>c\<in>set (values_of counts). c < 0"
  shows "let mc = Max (set (values_of counts)); ts = sum_list (values_of counts);
             r = nearest_double \<bar>mc\<bar> \<bar>ts\<bar>;
             q = (if (mc < 0) = (ts < 0) then r else - r)
         in (ts = 0 \<longrightarrow> check_accountability_footprint counts = Inl ZeroDivisionError) \<and>
            (ts \<noteq> 0 \<and> \<bar>mc\<bar> \<le> \<bar>ts\<bar> * 2 ^ 1023 \<longrightarrow>
               check_accountability_footprint counts =
                 Inr \<lparr>max_count = mc, total_shots = ts, ratio = q,
                      status = (if threshold_literal < q then FLUX_DETECTED else ABSOLUTE)\<rparr>)"
proof -
  from assms have ne: "counts \<noteq> []" by (auto simp: values_of_def)
  show ?thesis
    unfolding Let_def check_accountability_footprint_unfold [OF ne]
    by (auto simp: py_truediv_in_range) (simp add: py_truediv_def)
qed

theorem negative_counts_are_not_rejected_witness:
  "check_accountability_footprint [(''00'', - 1), (''01'', 3)] =
     Inr \<lparr>max_count = 3, total_shots = 2, ratio = 3 / 2, status = FLUX_DETECTED\<rparr>"
proof -
  have "nearest_double 3 2 = 3 / 2" by (simp add: float_eval)
  with negative_counts_are_not_rejected [of "[(''00'', - 1), (''01'', 3)]"] show ?thesis
    by (simp add: values_of_def threshold_literal_value Let_def)
qed

text \<open>
  The specification's example: the table whose single entry gives the count -1 is classified,
  with ratio (-1) / (-1) = 1.0.
\<close>

theorem negative_count_counterexample:
  "check_accountability_footprint [(''00'', - 1)] =
     Inr \<lparr>max_count = - 1, total_shots = - 1, ratio = 1, status = FLUX_DETECTED\<rparr>"
  by (simp add: check_accountability_footprint_def values_of_def py_sum_def
      threshold_literal_value float_eval)

text \<open>
  C3 (as amended). The check has no \<open>EmptyDistribution\<close> error. It fails with
  \<open>ValueError\<close> exactly when the table is empty (\<open>max\<close> of an empty sequence) and with
  \<open>ZeroDivisionError\<close> exactly when the table is not empty and its counts sum to zero: the
  division by zero is attempted, and raises. For tables of non-negative counts these are
  the only failures.
\<close>

theorem footprint_check_failures:
  "(check_accountability_footprint counts = Inl ValueError \<longleftrightarrow> counts = []) \<and>
   (check_accountability_footprint counts = Inl ZeroDivisionError \<longleftrightarrow>
      counts \<noteq> [] \<and> sum_list (values_of counts) = 0) \<and>
   ((\<forall>c\<in>set (values_of counts). 0 \<le> c) \<longrightarrow>
      (isl (check_accountability_footprint counts) \<longleftrightarrow>
         counts = [] \<or> sum_list (values_of counts) = 0))"
proof (cases "counts = []")
  case True
  then show ?thesis by (simp add: check_accountability_footprint_Nil)
next
  case False
  let ?mc = "Max (set (values_of counts))" and ?ts = "sum_list (values_of counts)"
  note u = check_accountability_footprint_unfold [OF False]
  from py_truediv_cases [of ?mc ?ts]
  have 1: "check_accountability_footprint counts \<noteq> Inl ValueError"
    and 2: "check_accountability_footprint counts = Inl ZeroDivisionError \<longleftrightarrow> ?ts = 0"
    unfolding u by auto
  have 3: "isl (check_accountability_footprint counts) \<longleftrightarrow> ?ts = 0"
    if nn: "\<forall>c\<in>set (values_of counts). 0 \<le> c"
  proof (cases "?ts = 0")
    case True
    with 2 show ?thesis by simp
  next
    case nz: False
    from False have ne: "values_of counts \<noteq> []" by (simp add: values_of_def)
    from nn have "0 \<le> ?ts" by (simp add: sum_list_nonneg)
    with nz have pos: "0 < ?ts" by simp
    from Max_le_sum_list [OF ne nn] have "0 \<le> ?mc" "?mc \<le> ?ts" by simp_all
    from py_truediv_nonneg [OF this pos] nz show ?thesis
      unfolding u by simp
  qed
  from False 1 2 3 show ?thesis by simp
qed

theorem footprint_check_failures_witness:
  "check_accountability_footprint [] = Inl ValueError \<and>
   check_accountability_footprint [(''00'', 0)] = Inl ZeroDivisionError \<and>
   isl (check_accountability_footprint [(''00'', 0)])"
  using footprint_check_failures [of "[]"] footprint_check_failures [of "[(''00'', 0)]"]
  by (simp add: values_of_def)

text \<open>
  The empty table fails in \<open>max\<close>; a table of zeros fails in the division.
\<close>

theorem empty_distribution_counterexample:
  "check_accountability_footprint [] = Inl ValueError \<and>
   check_accountability_footprint [(''00'', 0), (''01'', 0)] = Inl ZeroDivisionError"
  by (simp add: check_accountability_footprint_def values_of_def py_sum_def py_truediv_def)

text \<open>
  C10. The result of the check depends only on the multiset of the counts: two tables
  whose counts agree as multisets, whatever their keys and their order, get the same result
  (the same ratio and report, or the same error).
\<close>

theorem footprint_depends_on_counts_only:
  assumes "mset (values_of counts) = mset (values_of counts')"
  shows "check_accountability_footprint counts = check_accountability_footprint counts'"
proof (cases "counts = []")
  case True
  with assms have "counts' = []" by (simp add: values_of_def)
  with True show ?thesis by simp
next
  case False
  with assms have ne: "counts' \<noteq> []" by (auto simp: values_of_def)
  from assms have s: "set (values_of counts) = set (values_of counts')"
    by (rule mset_eq_setD)
  from assms have t: "sum_list (values_of counts) = sum_list (values_of counts')"
    by (metis sum_mset_sum_list)
  show ?thesis
    unfolding check_accountability_footprint_unfold [OF False]
      check_accountability_footprint_unfold [OF ne] s t ..
qed

theorem footprint_depends_on_counts_only_witness:
  "mset (values_of [(''00'', 1), (''01'', 3)]) = mset (values_of [(''10'', 3), (''11'', 1)]) \<and>
   check_accountability_footprint [(''00'', 1), (''01'', 3)] =
     check_accountability_footprint [(''10'', 3), (''11'', 1)]"
proof -
  have m: "mset (values_of [(''00'', 1), (''01'', 3)]) = mset (values_of [(''10'', 3), (''11'', 1)])"
    by (simp add: values_of_def)
  from footprint_depends_on_counts_only [OF m] m show ?thesis by simp
qed

end
